theory Spec2Isabelle
  imports Main "HOL-Library.Word"
begin

unbundle bit_operations_syntax

section \<open>SCSI SPIN/SPOUT encryption pages (scsiencrypt.h)\<close>

text \<open>
  A shallow embedding of \<^verbatim>\<open>src/scsiencrypt.h\<close>: the enumerations and their stream
  operators, the packed page structures with their mask constants, and the walker
  \<^verbatim>\<open>read_page_kads\<close> over key-associated data.
\<close>

type_synonym u8 = "8 word"

subsection \<open>Enumerations and their stream operators\<close>

text \<open>
  \<^verbatim>\<open>enum class encrypt_mode : std::uint8_t\<close> and \<^verbatim>\<open>decrypt_mode\<close> have a fixed
  underlying type, so a value read from a device page can be any byte, not only a named
  enumerator. They are bytes here, with the enumerators as constants.
\<close>

type_synonym encrypt_mode = u8

definition encrypt_mode_off :: encrypt_mode where "encrypt_mode_off = 0"
definition encrypt_mode_external :: encrypt_mode where "encrypt_mode_external = 1"

type_synonym decrypt_mode = u8

definition decrypt_mode_off :: decrypt_mode where "decrypt_mode_off = 0"
definition decrypt_mode_raw :: decrypt_mode where "decrypt_mode_raw = 1"
definition decrypt_mode_on :: decrypt_mode where "decrypt_mode_on = 2"

text \<open>
  A \<^verbatim>\<open>std::ostream\<close> is the characters written to it so far; \<^verbatim>\<open>os << "off"\<close>
  appends, and the operator returns the stream.
\<close>

type_synonym ostream = string

definition put_encrypt_mode :: "ostream \<Rightarrow> encrypt_mode \<Rightarrow> ostream" where
  "put_encrypt_mode os m =
     (if m = encrypt_mode_off then os @ ''off''
      else if m = encrypt_mode_external then os @ ''external''
      else os @ ''on'')"

definition put_decrypt_mode :: "ostream \<Rightarrow> decrypt_mode \<Rightarrow> ostream" where
  "put_decrypt_mode os m =
     (if m = decrypt_mode_off then os @ ''off''
      else if m = decrypt_mode_raw then os @ ''raw''
      else if m = decrypt_mode_on then os @ ''on''
      else os @ ''mixed'')"

subsection \<open>Packed structures\<close>

text \<open>
  Every structure of the header is declared \<^verbatim>\<open>__attribute__((packed))\<close>: fields follow
  one another without padding, in declaration order. A structure is the list of its
  fields, each with its C type. A flexible array member (\<^verbatim>\<open>kad kads[]\<close>,
  \<^verbatim>\<open>std::uint8_t key[]\<close>) takes no room in \<^verbatim>\<open>sizeof\<close>.
\<close>

datatype ctype =
    U8 | U16 | U32 | U64
  | Byte
  | Enum8
  | Array ctype nat
  | Flex

fun sizeof_ctype :: "ctype \<Rightarrow> nat" where
  "sizeof_ctype U8 = 1"
| "sizeof_ctype U16 = 2"
| "sizeof_ctype U32 = 4"
| "sizeof_ctype U64 = 8"
| "sizeof_ctype Byte = 1"
| "sizeof_ctype Enum8 = 1"
| "sizeof_ctype (Array t n) = n * sizeof_ctype t"
| "sizeof_ctype Flex = 0"

type_synonym struct = "(string \<times> ctype) list"

definition sizeof :: "struct \<Rightarrow> nat" where
  "sizeof fs = sum_list (map (\<lambda>(f, t). sizeof_ctype t) fs)"

fun offsetof :: "struct \<Rightarrow> string \<Rightarrow> nat option" where
  "offsetof [] n = None"
| "offsetof ((f, t) # fs) n =
     (if f = n then Some 0 else map_option (\<lambda>k. sizeof_ctype t + k) (offsetof fs n))"

text \<open>The table of a structure: each field with its byte offset and its width.\<close>

fun field_table :: "nat \<Rightarrow> struct \<Rightarrow> (string \<times> nat \<times> nat) list" where
  "field_table off [] = []"
| "field_table off ((f, t) # fs) =
     (f, off, sizeof_ctype t) # field_table (off + sizeof_ctype t) fs"

definition kad :: struct where
  "kad = [(''type'', Enum8), (''flags'', Byte), (''length'', U16), (''descriptor'', Flex)]"

definition page_header :: struct where
  "page_header = [(''page_code'', U16), (''length'', U16)]"

definition page_des :: struct where
  "page_des =
     [(''page_code'', U16), (''length'', U16), (''scope'', Byte),
      (''encryption_mode'', Enum8), (''decryption_mode'', Enum8),
      (''algorithm_index'', U8), (''key_instance_counter'', U32), (''flags'', Byte),
      (''kad_format'', Enum8), (''asdk_count'', U16), (''reserved'', Array Byte 8),
      (''kads'', Flex)]"

definition page_sde :: struct where
  "page_sde =
     [(''page_code'', U16), (''length'', U16), (''control'', Byte), (''flags'', Byte),
      (''encryption_mode'', Enum8), (''decryption_mode'', Enum8),
      (''algorithm_index'', U8), (''key_format'', U8), (''kad_format'', Enum8),
      (''reserved'', Array Byte 7), (''key_length'', U16), (''key'', Flex)]"

definition page_nbes :: struct where
  "page_nbes =
     [(''page_code'', U16), (''length'', U16), (''logical_object_number'', U64),
      (''status'', Byte), (''algorithm_index'', U8), (''flags'', Byte),
      (''kad_format'', Enum8), (''kads'', Flex)]"

definition sense_data :: struct where
  "sense_data =
     [(''response'', Byte), (''reserved'', Byte), (''flags'', Byte),
      (''information'', Array U8 4), (''additional_sense_length'', U8),
      (''command_specific_information'', Array U8 4), (''additional_sense_code'', U8),
      (''additional_sense_qualifier'', U8), (''field_replaceable_unit_code'', U8),
      (''sense_key_specific'', Array U8 3), (''additional_sense_bytes'', Flex)]"

subsection \<open>Bit fields of the set data encryption page\<close>

text \<open>
  The \<^verbatim>\<open>_pos\<close> and \<^verbatim>\<open>_mask\<close> constants of \<^verbatim>\<open>page_sde\<close>; \<^verbatim>\<open>7u << pos\<close> is
  \<open>push_bit pos 7\<close>. The enumerators of \<^verbatim>\<open>sde_rdmc\<close> are already shifted to the
  position of the field.
\<close>

definition control_scope_pos :: nat where "control_scope_pos = 5"
definition control_scope_mask :: u8 where "control_scope_mask = push_bit control_scope_pos 7"
definition control_lock_pos :: nat where "control_lock_pos = 0"
definition control_lock_mask :: u8 where "control_lock_mask = push_bit control_lock_pos 1"

definition flags_ceem_pos :: nat where "flags_ceem_pos = 6"
definition flags_ceem_mask :: u8 where "flags_ceem_mask = push_bit flags_ceem_pos 3"
definition flags_rdmc_pos :: nat where "flags_rdmc_pos = 4"
definition flags_rdmc_mask :: u8 where "flags_rdmc_mask = push_bit flags_rdmc_pos 3"
definition flags_sdk_pos :: nat where "flags_sdk_pos = 3"
definition flags_sdk_mask :: u8 where "flags_sdk_mask = push_bit flags_sdk_pos 1"
definition flags_ckod_pos :: nat where "flags_ckod_pos = 2"
definition flags_ckod_mask :: u8 where "flags_ckod_mask = push_bit flags_ckod_pos 1"
definition flags_ckorp_pos :: nat where "flags_ckorp_pos = 1"
definition flags_ckorp_mask :: u8 where "flags_ckorp_mask = push_bit flags_ckorp_pos 1"
definition flags_ckorl_pos :: nat where "flags_ckorl_pos = 0"
definition flags_ckorl_mask :: u8 where "flags_ckorl_mask = push_bit flags_ckorl_pos 1"

type_synonym sde_rdmc = u8

definition sde_rdmc_algorithm_default :: sde_rdmc where
  "sde_rdmc_algorithm_default = push_bit flags_rdmc_pos 0"
definition sde_rdmc_enabled :: sde_rdmc where
  "sde_rdmc_enabled = push_bit flags_rdmc_pos 2"
definition sde_rdmc_disabled :: sde_rdmc where
  "sde_rdmc_disabled = push_bit flags_rdmc_pos 3"

subsection \<open>Memory and the walker over key-associated data\<close>

text \<open>
  \<^verbatim>\<open>read_page_kads\<close> takes a reference to a page and nothing else: no buffer and no
  buffer length. It casts the address to \<^verbatim>\<open>const std::uint8_t *\<close> and moves a pointer
  by the lengths it finds. The memory it walks is a function from byte offsets, counted
  from the address \<^verbatim>\<open>start\<close> of the page, to bytes; a pointer is its offset from
  \<^verbatim>\<open>start\<close>, and a \<^verbatim>\<open>std::reference_wrapper<const kad>\<close> is the offset of the record
  it refers to. Reading outside the object the page lives in is undefined behaviour in
  C++; here it reads whatever byte the memory holds at that offset.
\<close>

type_synonym memory = "nat \<Rightarrow> u8"

text \<open>
  A buffer of bytes placed at \<^verbatim>\<open>start\<close>, followed by the memory \<open>beyond\<close> it. The
  length of \<open>buf\<close> is the actual length of the buffer.
\<close>

definition buffer_memory :: "u8 list \<Rightarrow> memory \<Rightarrow> memory" where
  "buffer_memory buf beyond a = (if a < length buf then buf ! a else beyond (a - length buf))"

definition zeros :: memory where
  "zeros a = 0"

text \<open>
  \<^verbatim>\<open>ntohs(x.length)\<close> for a \<^verbatim>\<open>std::uint16_t\<close> field stored at offset \<open>off\<close>: the two
  bytes in network order, most significant first. The value is below 65536.
\<close>

definition ntohs_at :: "memory \<Rightarrow> nat \<Rightarrow> nat" where
  "ntohs_at mem off = 256 * unat (mem off) + unat (mem (off + 1))"

text \<open>\<^verbatim>\<open>page.length\<close> and \<^verbatim>\<open>elem->length\<close>: both fields are at offset 2 of their structure.\<close>

definition page_length :: "memory \<Rightarrow> nat" where
  "page_length page = ntohs_at page 2"

definition kad_length :: "memory \<Rightarrow> nat \<Rightarrow> nat" where
  "kad_length mem elem = ntohs_at mem (elem + 2)"

text \<open>
  The loop of \<^verbatim>\<open>read_page_kads\<close>:
  \<^verbatim>\<open>while (it < end) { elem = it; v.push_back(*elem); it += ntohs(elem->length) + sizeof(kad); }\<close>
  The sum is a \<^verbatim>\<open>std::size_t\<close> of at most 65539 and does not wrap.
\<close>

function kads_loop :: "memory \<Rightarrow> nat \<Rightarrow> nat \<Rightarrow> nat list \<Rightarrow> nat list" where
  "kads_loop mem endp it v =
     (if it < endp
      then kads_loop mem endp (it + (kad_length mem it + sizeof kad)) (v @ [it])
      else v)"
  by pat_completeness auto
termination
  by (relation "measure (\<lambda>(mem, endp, it, v). endp - it)") (auto simp: sizeof_def kad_def)

text \<open>
  \<^verbatim>\<open>end = start + ntohs(page.length) + sizeof(page_header)\<close>, as an offset from
  \<^verbatim>\<open>start\<close>.
\<close>

definition page_end :: "memory \<Rightarrow> nat" where
  "page_end page = page_length page + sizeof page_header"

text \<open>
  The template parameter \<^verbatim>\<open>Page\<close> enters through \<^verbatim>\<open>sizeof(Page)\<close> only, so the
  walker takes the structure: \<^verbatim>\<open>it = start + sizeof(Page)\<close>.
\<close>

definition read_page_kads :: "struct \<Rightarrow> memory \<Rightarrow> nat list" where
  "read_page_kads Page page = kads_loop page (page_end page) (sizeof Page) []"

subsection \<open>The walker on a page that lives in a buffer\<close>

text \<open>
  The flat memory above gives every read a value. That is enough to say which records
  are yielded from given bytes, but it makes every run return, which the program does
  not promise. The page that \<^verbatim>\<open>read_page_kads\<close> is given lives in a buffer of some
  length, which the function is not told. Where it reads \<^verbatim>\<open>page.length\<close> or \<^verbatim>\<open>elem->length\<close> at
  an offset that is not inside the buffer, C++ defines no result: the program may stop
  with a fault or go on with whatever bytes lie there. That outcome is \<open>ReadOutside\<close>,
  with the offset of the 16-bit field that was read. It is not an error the code
  reports and not a check the code makes; it marks where the run leaves what the
  language defines. Taking a reference to \<^verbatim>\<open>*elem\<close> for \<^verbatim>\<open>push_back\<close> reads nothing.
\<close>

datatype fault = ReadOutside nat

definition ntohs_in :: "u8 list \<Rightarrow> nat \<Rightarrow> fault + nat" where
  "ntohs_in buf off =
     (if off + 1 < length buf then Inr (ntohs_at (nth buf) off) else Inl (ReadOutside off))"

text \<open>The same loop as \<open>kads_loop\<close>, the page being the buffer \<open>buf\<close>.\<close>

function kads_loop_in :: "u8 list \<Rightarrow> nat \<Rightarrow> nat \<Rightarrow> nat list \<Rightarrow> fault + nat list" where
  "kads_loop_in buf endp it v =
     (if it < endp
      then (case ntohs_in buf (it + 2) of
              Inl f \<Rightarrow> Inl f
            | Inr n \<Rightarrow> kads_loop_in buf endp (it + (n + sizeof kad)) (v @ [it]))
      else Inr v)"
  by pat_completeness auto
termination
  by (relation "measure (\<lambda>(buf, endp, it, v). endp - it)") (auto simp: sizeof_def kad_def)

definition read_page_kads_in :: "struct \<Rightarrow> u8 list \<Rightarrow> fault + nat list" where
  "read_page_kads_in Page buf =
     (case ntohs_in buf 2 of
        Inl f \<Rightarrow> Inl f
      | Inr n \<Rightarrow> kads_loop_in buf (n + sizeof page_header) (sizeof Page) [])"

subsection \<open>Example pages\<close>

text \<open>
  A device encryption status page that declares 31 bytes after its header, so that its
  boundary is offset 35. Two records follow the 24 bytes of \<^verbatim>\<open>page_des\<close>: one at
  offset 24 with a 2-byte descriptor, and one at offset 30 whose length field says 2
  although only one byte is left before the boundary.
\<close>

definition des_overrun_buffer :: "u8 list" where
  "des_overrun_buffer =
     [0, 0x20, 0, 31] @ replicate 20 0 @ [0, 0, 0, 2, 0xAA, 0xBB] @ [0, 0, 0, 2, 0xCC]"

text \<open>
  A buffer of 24 bytes, the size of \<^verbatim>\<open>page_des\<close> and no more, whose length field
  declares 28 bytes after the header: 8 bytes more than the buffer holds.
\<close>

definition des_short_buffer :: "u8 list" where
  "des_short_buffer = [0, 0x20, 0, 28] @ replicate 20 0"

text \<open>A device encryption status page with no record: it declares 20 bytes.\<close>

definition des_plain_buffer :: "u8 list" where
  "des_plain_buffer = [0, 0x20, 0, 20] @ replicate 20 0"

text \<open>
  A buffer of 32 bytes that declares 36 bytes after its header, so that its boundary,
  offset 40, is 8 bytes past its end. Its one record, at offset 24, has a length field
  of 100.
\<close>

definition des_long_record_buffer :: "u8 list" where
  "des_long_record_buffer = [0, 0x20, 0, 36] @ replicate 20 0 @ [0, 0, 0, 100, 1, 2, 3, 4]"

text \<open>
  A buffer of 33 bytes that declares 26 bytes after its header: the boundary is offset
  30 and three more bytes follow it. One record, at offset 24, of 6 bytes.
\<close>

definition des_roomy_buffer :: "u8 list" where
  "des_roomy_buffer = [0, 0x20, 0, 26] @ replicate 20 0 @ [0, 0, 0, 2, 0xAA, 0xBB] @ [0, 0, 0]"

text \<open>A buffer of 24 bytes whose length field is 0xFFFF.\<close>

definition des_hostile_buffer :: "u8 list" where
  "des_hostile_buffer = [0, 0x20, 0xFF, 0xFF] @ replicate 20 0"

subsection \<open>The set data encryption page: builder and codec\<close>

type_synonym kadf = u8

definition kadf_unspecified :: kadf where "kadf_unspecified = 0"
definition kadf_binary_key_name :: kadf where "kadf_binary_key_name = 1"

type_synonym kad_type = u8

definition kad_type_akad :: kad_type where "kad_type_akad = 1"
definition kad_type_nonce :: kad_type where "kad_type_nonce = 2"
definition kad_type_mkad :: kad_type where "kad_type_mkad = 3"
definition kad_type_wkkad :: kad_type where "kad_type_wkkad = 4"

text \<open>
  \<^verbatim>\<open>htons(n)\<close> stored in a \<^verbatim>\<open>std::uint16_t\<close> field: the value is cut to 16 bits and
  its two bytes are written most significant first.
\<close>

definition htons :: "nat \<Rightarrow> u8 list" where
  "htons n = [of_nat (n mod 65536 div 256), of_nat (n mod 256)]"











section \<open>The walk, one record at a time\<close>

declare kads_loop.simps [simp del]

lemma sizeof_kad: "sizeof kad = 4"
  by (simp add: sizeof_def kad_def)

lemma sizeof_page_header: "sizeof page_header = 4"
  by (simp add: sizeof_def page_header_def)

lemma kads_loop_acc: "kads_loop mem endp it v = v @ kads_loop mem endp it []"
proof -
  have "\<forall>w. kads_loop mem endp it w = w @ kads_loop mem endp it []"
  proof (induction mem endp it v rule: kads_loop.induct)
    case (1 mem endp it v)
    show ?case
    proof (cases "it < endp")
      case True
      with "1" have ih: "\<And>w. kads_loop mem endp (it + (kad_length mem it + sizeof kad)) w
                 = w @ kads_loop mem endp (it + (kad_length mem it + sizeof kad)) []"
        by blast
      show ?thesis
      proof
        fix w
        have "kads_loop mem endp it w
              = kads_loop mem endp (it + (kad_length mem it + sizeof kad)) (w @ [it])"
          using True by (simp add: kads_loop.simps [of mem endp it])
        also have "\<dots> = w @ [it] @ kads_loop mem endp (it + (kad_length mem it + sizeof kad)) []"
          using ih [of "w @ [it]"] by simp
        also have "[it] @ kads_loop mem endp (it + (kad_length mem it + sizeof kad)) []
                   = kads_loop mem endp it []"
          using True ih [of "[it]"] by (simp add: kads_loop.simps [of mem endp it "[]"])
        finally show "kads_loop mem endp it w = w @ kads_loop mem endp it []" .
      qed
    next
      case False
      then show ?thesis by (simp add: kads_loop.simps [of mem endp it])
    qed
  qed
  then show ?thesis by blast
qed

lemma kads_loop_step:
  "it < endp \<Longrightarrow>
   kads_loop mem endp it [] = it # kads_loop mem endp (it + (kad_length mem it + sizeof kad)) []"
  using kads_loop_acc [of mem endp "it + (kad_length mem it + sizeof kad)" "[it]"]
  by (simp add: kads_loop.simps [of mem endp it "[]"])

lemma kads_loop_stop: "\<not> it < endp \<Longrightarrow> kads_loop mem endp it [] = []"
  by (simp add: kads_loop.simps [of mem endp it "[]"])

lemma walk_induct [consumes 0, case_names step]:
  assumes "\<And>it. (it < endp \<Longrightarrow> P (it + (kad_length mem it + sizeof kad))) \<Longrightarrow> P it"
  shows "P it"
proof (induction "endp - it" arbitrary: it rule: less_induct)
  case less
  show ?case
  proof (rule assms)
    assume "it < endp"
    then have "endp - (it + (kad_length mem it + sizeof kad)) < endp - it"
      by (simp add: sizeof_kad)
    then show "P (it + (kad_length mem it + sizeof kad))"
      by (rule less)
  qed
qed

lemma kads_loop_range:
  "r \<in> set (kads_loop mem endp it []) \<Longrightarrow> it \<le> r \<and> r < endp"
proof (induction it rule: walk_induct [of endp _ mem])
  case (step it)
  show ?case
  proof (cases "it < endp")
    case True
    with step show ?thesis by (auto simp: kads_loop_step)
  next
    case False
    with step show ?thesis by (simp add: kads_loop_stop)
  qed
qed


lemma kads_loop_last:
  "kads_loop mem endp it [] \<noteq> [] \<Longrightarrow>
   endp \<le> last (kads_loop mem endp it []) +
     (kad_length mem (last (kads_loop mem endp it [])) + sizeof kad)"
proof (induction it rule: walk_induct [of endp _ mem])
  case (step it)
  show ?case
  proof (cases "it < endp")
    case True
    let ?n = "it + (kad_length mem it + sizeof kad)"
    show ?thesis
    proof (cases "?n < endp")
      case True
      with step \<open>it < endp\<close> show ?thesis
        by (simp add: kads_loop_step [of it] kads_loop_step [of ?n])
    next
      case False
      with \<open>it < endp\<close> show ?thesis by (simp add: kads_loop_step kads_loop_stop)
    qed
  next
    case False
    with step show ?thesis by (simp add: kads_loop_stop)
  qed
qed

lemma kads_loop_butlast:
  "r \<in> set (butlast (kads_loop mem endp it [])) \<Longrightarrow>
   r + (kad_length mem r + sizeof kad) < endp"
proof (induction it rule: walk_induct [of endp _ mem])
  case (step it)
  show ?case
  proof (cases "it < endp")
    case True
    let ?n = "it + (kad_length mem it + sizeof kad)"
    show ?thesis
    proof (cases "?n < endp")
      case True
      with step \<open>it < endp\<close> show ?thesis
        by (auto simp: kads_loop_step [of it] kads_loop_step [of ?n])
    next
      case False
      with step \<open>it < endp\<close> show ?thesis by (simp add: kads_loop_step kads_loop_stop)
    qed
  next
    case False
    with step show ?thesis by (simp add: kads_loop_stop)
  qed
qed

lemma kads_loop_length:
  "4 * length (kads_loop mem endp it []) \<le> (endp - it) + 3"
proof (induction it rule: walk_induct [of endp _ mem])
  case (step it)
  show ?case
  proof (cases "it < endp")
    case True
    let ?n = "it + (kad_length mem it + sizeof kad)"
    show ?thesis
    proof (cases "?n < endp")
      case True
      with step \<open>it < endp\<close>
      have "4 * length (kads_loop mem endp ?n []) \<le> endp - ?n + 3"
        by simp
      with True \<open>it < endp\<close> show ?thesis
        by (simp add: kads_loop_step [of it] sizeof_kad)
    next
      case False
      with \<open>it < endp\<close> show ?thesis
        by (simp add: kads_loop_step [of it] kads_loop_stop)
    qed
  next
    case False
    then show ?thesis by (simp add: kads_loop_stop)
  qed
qed


lemma ntohs_at_bound: "ntohs_at mem off < 65536"
proof -
  have "unat (mem off) < 256" "unat (mem (off + 1)) < 256"
    using unsigned_less [of "mem off", where ?'a = nat]
      unsigned_less [of "mem (off + 1)", where ?'a = nat] by simp_all
  then show ?thesis by (simp add: ntohs_at_def)
qed

subsection \<open>Byte order and the shape of the built page\<close>

lemma length_htons [simp]: "length (htons n) = 2"
  by (simp add: htons_def)






lemmas page_eval =
  read_page_kads_def page_end_def page_length_def kad_length_def ntohs_at_def
  buffer_memory_def zeros_def sizeof_def kad_def page_des_def page_header_def nth_append

subsection \<open>The walk inside a buffer\<close>

declare kads_loop_in.simps [simp del]

text \<open>
  A run that returns has read inside the buffer only, and returns what the flat walk
  over the bytes of the buffer returns.
\<close>

lemma kads_loop_in_agrees:
  "kads_loop_in buf endp it v = Inr rs \<Longrightarrow> kads_loop (nth buf) endp it v = rs"
proof (induction buf endp it v rule: kads_loop_in.induct)
  case (1 buf endp it v)
  show ?case
  proof (cases "it < endp")
    case True
    show ?thesis
    proof (cases "ntohs_in buf (it + 2)")
      case (Inl f)
      with True "1.prems" show ?thesis
        by (simp add: kads_loop_in.simps [of buf endp it v])
    next
      case (Inr n)
      then have n: "kad_length (nth buf) it = n"
        by (auto simp: ntohs_in_def kad_length_def split: if_splits)
      from True Inr "1.prems"
      have "kads_loop_in buf endp (it + (n + sizeof kad)) (v @ [it]) = Inr rs"
        by (simp add: kads_loop_in.simps [of buf endp it v])
      with "1.IH" [OF True Inr] have "kads_loop (nth buf) endp (it + (n + sizeof kad)) (v @ [it]) = rs"
        by simp
      with True n show ?thesis
        by (simp add: kads_loop.simps [of "nth buf" endp it v])
    qed
  next
    case False
    with "1.prems" show ?thesis
      by (auto simp: kads_loop_in.simps [of buf endp it v] kads_loop.simps [of "nth buf" endp it])
  qed
qed

lemma kads_loop_in_fault:
  "kads_loop_in buf endp it v = Inl (ReadOutside a) \<Longrightarrow> length buf \<le> a + 1 \<and> a < endp + 2"
proof (induction buf endp it v rule: kads_loop_in.induct)
  case (1 buf endp it v)
  show ?case
  proof (cases "it < endp")
    case True
    show ?thesis
    proof (cases "ntohs_in buf (it + 2)")
      case (Inl f)
      with True "1.prems" have "f = ReadOutside a"
        by (simp add: kads_loop_in.simps [of buf endp it v])
      with Inl True show ?thesis
        by (auto simp: ntohs_in_def split: if_splits)
    next
      case (Inr n)
      from True Inr "1.prems"
      have "kads_loop_in buf endp (it + (n + sizeof kad)) (v @ [it]) = Inl (ReadOutside a)"
        by (simp add: kads_loop_in.simps [of buf endp it v])
      with "1.IH" [OF True Inr] show ?thesis
        by simp
    qed
  next
    case False
    with "1.prems" show ?thesis
      by (simp add: kads_loop_in.simps [of buf endp it v])
  qed
qed

lemma kads_loop_in_returns:
  "endp + 3 \<le> length buf \<Longrightarrow> kads_loop_in buf endp it v = Inr (kads_loop (nth buf) endp it v)"
proof (induction buf endp it v rule: kads_loop_in.induct)
  case (1 buf endp it v)
  show ?case
  proof (cases "it < endp")
    case True
    with "1.prems" have rd: "ntohs_in buf (it + 2) = Inr (kad_length (nth buf) it)"
      by (simp add: ntohs_in_def kad_length_def)
    from "1.IH" [OF True rd "1.prems"] True rd show ?thesis
      by (simp add: kads_loop_in.simps [of buf endp it v] kads_loop.simps [of "nth buf" endp it v])
  next
    case False
    then show ?thesis
      by (simp add: kads_loop_in.simps [of buf endp it v] kads_loop.simps [of "nth buf" endp it v])
  qed
qed

lemma read_page_kads_in_Inr:
  assumes "read_page_kads_in Page buf = Inr rs"
  shows "rs = read_page_kads Page (nth buf)"
proof -
  from assms have "kads_loop_in buf (page_end (nth buf)) (sizeof Page) [] = Inr rs"
    by (auto simp: read_page_kads_in_def ntohs_in_def page_end_def page_length_def
        split: if_splits)
  then show ?thesis
    by (simp add: read_page_kads_def kads_loop_in_agrees)
qed

lemma read_page_kads_in_Inl:
  assumes "read_page_kads_in Page buf = Inl (ReadOutside a)"
  shows "length buf \<le> a + 1 \<and> a < page_end (nth buf) + 2"
proof (cases "3 < length buf")
  case True
  with assms have "kads_loop_in buf (page_end (nth buf)) (sizeof Page) [] = Inl (ReadOutside a)"
    by (simp add: read_page_kads_in_def ntohs_in_def page_end_def page_length_def)
  then show ?thesis
    by (rule kads_loop_in_fault)
next
  case False
  with assms have "a = 2"
    by (simp add: read_page_kads_in_def ntohs_in_def)
  with False show ?thesis
    by (simp add: page_end_def sizeof_page_header)
qed

lemmas buffer_eval =
  read_page_kads_in_def ntohs_in_def ntohs_at_def page_end_def page_length_def kad_length_def
  sizeof_def kad_def page_des_def page_sde_def page_header_def nth_append kads_loop_in.simps

section \<open>Properties\<close>

subsection \<open>Stream operators\<close>

text \<open>
  C10. The stream operators of \<^verbatim>\<open>encrypt_mode\<close> and \<^verbatim>\<open>decrypt_mode\<close> are total:
  every encrypt_mode byte other than off and external, named or not, is written as
  "on", and every decrypt_mode byte other than off, raw and on is written as "mixed";
  for every byte the operator appends one of the fixed labels to the stream.
\<close>

theorem put_mode_total:
  "(m \<noteq> encrypt_mode_off \<longrightarrow> m \<noteq> encrypt_mode_external \<longrightarrow>
      put_encrypt_mode os m = os @ ''on'') \<and>
   (d \<noteq> decrypt_mode_off \<longrightarrow> d \<noteq> decrypt_mode_raw \<longrightarrow> d \<noteq> decrypt_mode_on \<longrightarrow>
      put_decrypt_mode os d = os @ ''mixed'') \<and>
   put_encrypt_mode os m \<in> {os @ ''off'', os @ ''external'', os @ ''on''} \<and>
   put_decrypt_mode os d \<in> {os @ ''off'', os @ ''raw'', os @ ''on'', os @ ''mixed''}"
  by (simp add: put_encrypt_mode_def put_decrypt_mode_def)

theorem put_mode_total_witness:
  "(7::u8) \<noteq> encrypt_mode_off \<and> (7::u8) \<noteq> encrypt_mode_external \<and>
   put_encrypt_mode ''mode: '' 7 = ''mode: on'' \<and>
   (200::u8) \<noteq> decrypt_mode_off \<and> (200::u8) \<noteq> decrypt_mode_raw \<and>
   (200::u8) \<noteq> decrypt_mode_on \<and>
   put_decrypt_mode ''mode: '' 200 = ''mode: mixed''"
  using put_mode_total [of 7 "''mode: ''" 200]
  by (simp add: encrypt_mode_off_def encrypt_mode_external_def decrypt_mode_off_def
      decrypt_mode_raw_def decrypt_mode_on_def)

subsection \<open>Structure layouts\<close>

text \<open>
  C5. The page and sense structures have the sizes their \<^verbatim>\<open>static_assert\<close>s state:
  \<^verbatim>\<open>page_des\<close> 24 bytes, \<^verbatim>\<open>page_sde\<close> 20, \<^verbatim>\<open>page_nbes\<close> 16 and
  \<^verbatim>\<open>sense_data\<close> 18, each the sum of the widths of its packed fields, with the byte
  offset and the width of every field as listed.
\<close>

theorem packed_struct_sizes:
  "sizeof page_des = 24 \<and> sizeof page_sde = 20 \<and> sizeof page_nbes = 16 \<and>
   sizeof sense_data = 18 \<and>
   field_table 0 page_des =
     [(''page_code'', 0, 2), (''length'', 2, 2), (''scope'', 4, 1),
      (''encryption_mode'', 5, 1), (''decryption_mode'', 6, 1),
      (''algorithm_index'', 7, 1), (''key_instance_counter'', 8, 4),
      (''flags'', 12, 1), (''kad_format'', 13, 1), (''asdk_count'', 14, 2),
      (''reserved'', 16, 8), (''kads'', 24, 0)] \<and>
   field_table 0 page_sde =
     [(''page_code'', 0, 2), (''length'', 2, 2), (''control'', 4, 1),
      (''flags'', 5, 1), (''encryption_mode'', 6, 1), (''decryption_mode'', 7, 1),
      (''algorithm_index'', 8, 1), (''key_format'', 9, 1), (''kad_format'', 10, 1),
      (''reserved'', 11, 7), (''key_length'', 18, 2), (''key'', 20, 0)] \<and>
   field_table 0 page_nbes =
     [(''page_code'', 0, 2), (''length'', 2, 2), (''logical_object_number'', 4, 8),
      (''status'', 12, 1), (''algorithm_index'', 13, 1), (''flags'', 14, 1),
      (''kad_format'', 15, 1), (''kads'', 16, 0)] \<and>
   field_table 0 sense_data =
     [(''response'', 0, 1), (''reserved'', 1, 1), (''flags'', 2, 1),
      (''information'', 3, 4), (''additional_sense_length'', 7, 1),
      (''command_specific_information'', 8, 4), (''additional_sense_code'', 12, 1),
      (''additional_sense_qualifier'', 13, 1), (''field_replaceable_unit_code'', 14, 1),
      (''sense_key_specific'', 15, 3), (''additional_sense_bytes'', 18, 0)]"
  by (simp add: sizeof_def page_des_def page_sde_def page_nbes_def sense_data_def)

text \<open>
  C4, as stated: the device encryption status page has a 24-byte region after its
  4-byte header and its records begin at offset 28. The structure says otherwise: the
  24 bytes of \<^verbatim>\<open>page_des\<close> include the header.
\<close>

theorem page_des_kads_offset_counterexample:
  "sizeof page_des - sizeof page_header \<noteq> 24 \<and> offsetof page_des ''kads'' \<noteq> Some 28"
  by (simp add: sizeof_def page_des_def page_header_def)

text \<open>
  C4, amended. The device encryption status page has a fixed 20-byte region following
  its 4-byte page header, 24 bytes with the header, so the trailing KAD records of a
  DES page begin at byte offset 24 from the start of the page: that is the offset of
  \<^verbatim>\<open>kads\<close>, and the first record \<^verbatim>\<open>read_page_kads\<close> yields is there.
\<close>

theorem page_des_kads_offset:
  "sizeof page_des - sizeof page_header = 20 \<and>
   offsetof page_des ''kads'' = Some 24 \<and>
   (sizeof page_des < page_end page \<longrightarrow> hd (read_page_kads page_des page) = 24)"
proof -
  have sz: "sizeof page_des = 24"
    by (simp add: sizeof_def page_des_def)
  have off: "offsetof page_des ''kads'' = Some 24"
    by (simp add: page_des_def)
  have "sizeof page_des < page_end page \<Longrightarrow> hd (read_page_kads page_des page) = 24"
    by (simp add: read_page_kads_def kads_loop_step sz)
  with off show ?thesis
    by (simp add: sz sizeof_page_header)
qed

theorem page_des_kads_offset_witness:
  "sizeof page_des < page_end (buffer_memory des_short_buffer zeros) \<and>
   hd (read_page_kads page_des (buffer_memory des_short_buffer zeros)) = 24"
  using page_des_kads_offset [of "buffer_memory des_short_buffer zeros"]
  by (simp add: page_eval des_short_buffer_def)

subsection \<open>Bit fields\<close>

text \<open>
  C9. In the set data encryption page, raw decryption mode control has a two-bit field
  of the flags byte to itself (bits 4 and 5), and every \<^verbatim>\<open>sde_rdmc\<close> enumerator lies
  inside that field. Clear key on demount, on reservation preempt and on reservation
  loss are one bit each (bits 2, 1 and 0), apart from the rdmc field and from one
  another. Lock and scope are disjoint bits of the control byte.
\<close>

theorem page_sde_bit_fields:
  "flags_rdmc_mask = push_bit 4 1 OR push_bit 5 1 \<and>
   flags_rdmc_mask AND flags_ceem_mask = 0 \<and>
   flags_rdmc_mask AND flags_sdk_mask = 0 \<and>
   sde_rdmc_algorithm_default AND NOT flags_rdmc_mask = 0 \<and>
   sde_rdmc_enabled AND NOT flags_rdmc_mask = 0 \<and>
   sde_rdmc_disabled AND NOT flags_rdmc_mask = 0 \<and>
   flags_ckod_mask = push_bit 2 1 \<and>
   flags_ckorp_mask = push_bit 1 1 \<and>
   flags_ckorl_mask = push_bit 0 1 \<and>
   flags_ckod_mask AND flags_rdmc_mask = 0 \<and>
   flags_ckorp_mask AND flags_rdmc_mask = 0 \<and>
   flags_ckorl_mask AND flags_rdmc_mask = 0 \<and>
   flags_ckod_mask AND flags_ckorp_mask = 0 \<and>
   flags_ckod_mask AND flags_ckorl_mask = 0 \<and>
   flags_ckorp_mask AND flags_ckorl_mask = 0 \<and>
   control_lock_mask AND control_scope_mask = 0"
  by (simp add: control_scope_pos_def control_scope_mask_def control_lock_pos_def
      control_lock_mask_def flags_ceem_pos_def flags_ceem_mask_def flags_rdmc_pos_def
      flags_rdmc_mask_def flags_sdk_pos_def flags_sdk_mask_def flags_ckod_pos_def
      flags_ckod_mask_def flags_ckorp_pos_def flags_ckorp_mask_def flags_ckorl_pos_def
      flags_ckorl_mask_def sde_rdmc_algorithm_default_def sde_rdmc_enabled_def
      sde_rdmc_disabled_def)

subsection \<open>The walker over key-associated data\<close>

text \<open>
  C8, as stated: for every page, whatever its declared length and the length fields of
  its records, \<^verbatim>\<open>read_page_kads\<close> terminates and returns a finite sequence of
  records. On a page of 24 bytes whose length field is 0xFFFF the first iteration reads
  \<^verbatim>\<open>elem->length\<close> at offset 26, outside the page: nothing is returned by right.
\<close>

theorem read_page_kads_in_returns_counterexample:
  "length des_hostile_buffer = 24 \<and>
   read_page_kads_in page_des des_hostile_buffer = Inl (ReadOutside 26)"
  by (simp add: buffer_eval des_hostile_buffer_def)

text \<open>
  C8, amended. For every page buffer, whatever its declared length and the length
  fields of its records, the walk of \<^verbatim>\<open>read_page_kads\<close> does not go on for ever: each
  iteration moves the cursor at least 4 bytes towards a fixed end, and the walk either
  returns a finite sequence of records, at most a quarter of the distance rounded up
  and never more than 16385, or reads a length field that does not lie inside the
  buffer, where nothing is defined to be returned. It returns whenever the buffer
  reaches at least 3 bytes past the declared boundary. (That one of the two happens
  is the termination proof of \<open>kads_loop_in\<close>.)
\<close>

theorem read_page_kads_in_outcome:
  "(page_end (nth buf) + 3 \<le> length buf \<longrightarrow>
      read_page_kads_in Page buf = Inr (read_page_kads Page (nth buf))) \<and>
   (read_page_kads_in Page buf = Inr rs \<longrightarrow>
      4 * length rs \<le> (page_end (nth buf) - sizeof Page) + 3 \<and> length rs \<le> 16385) \<and>
   (read_page_kads_in Page buf = Inl (ReadOutside a) \<longrightarrow> length buf \<le> a + 1)"
proof -
  have ret: "read_page_kads_in Page buf = Inr (read_page_kads Page (nth buf))"
    if room: "page_end (nth buf) + 3 \<le> length buf"
  proof -
    from room have "3 < length buf"
      by (simp add: page_end_def sizeof_page_header)
    then have "read_page_kads_in Page buf =
        kads_loop_in buf (page_end (nth buf)) (sizeof Page) []"
      by (simp add: read_page_kads_in_def ntohs_in_def page_end_def page_length_def)
    with room show ?thesis
      by (simp add: kads_loop_in_returns read_page_kads_def)
  qed
  have bound: "4 * length rs \<le> (page_end (nth buf) - sizeof Page) + 3 \<and> length rs \<le> 16385"
    if "read_page_kads_in Page buf = Inr rs"
  proof -
    from that have rs: "rs = read_page_kads Page (nth buf)"
      by (rule read_page_kads_in_Inr)
    have len: "4 * length rs \<le> (page_end (nth buf) - sizeof Page) + 3"
      unfolding rs read_page_kads_def by (rule kads_loop_length)
    have "page_length (nth buf) < 65536"
      unfolding page_length_def by (rule ntohs_at_bound)
    then have "page_end (nth buf) \<le> 65539"
      by (simp add: page_end_def sizeof_page_header)
    with len have "length rs \<le> 16385"
      by arith
    with len show ?thesis by blast
  qed
  have outside: "length buf \<le> a + 1" if "read_page_kads_in Page buf = Inl (ReadOutside a)"
    using read_page_kads_in_Inl [OF that] by blast
  from ret bound outside show ?thesis by blast
qed

theorem read_page_kads_in_outcome_witness:
  "page_end (nth des_roomy_buffer) + 3 \<le> length des_roomy_buffer \<and>
   read_page_kads_in page_des des_roomy_buffer = Inr [24] \<and>
   4 * length [24 :: nat] \<le> (page_end (nth des_roomy_buffer) - sizeof page_des) + 3 \<and>
   read_page_kads_in page_des des_hostile_buffer = Inl (ReadOutside 26) \<and>
   length des_hostile_buffer \<le> 26 + 1"
proof -
  have roomy: "read_page_kads_in page_des des_roomy_buffer = Inr [24]"
    by (simp add: buffer_eval des_roomy_buffer_def)
  have hostile: "read_page_kads_in page_des des_hostile_buffer = Inl (ReadOutside 26)"
    by (simp add: buffer_eval des_hostile_buffer_def)
  have room: "page_end (nth des_roomy_buffer) + 3 \<le> length des_roomy_buffer"
    by (simp add: buffer_eval des_roomy_buffer_def)
  from read_page_kads_in_outcome [of des_roomy_buffer page_des "[24]" 0]
    read_page_kads_in_outcome [of des_hostile_buffer page_des "[]" 26]
    roomy hostile room
  show ?thesis by blast
qed

text \<open>
  C6. For every page with exactly zero trailing records, that is
  \<^verbatim>\<open>ntohs(page.length) + 4 == sizeof(Page)\<close>, \<^verbatim>\<open>read_page_kads\<close> returns the empty
  sequence.
\<close>

theorem read_page_kads_no_records:
  "page_length page + 4 = sizeof Page \<Longrightarrow> read_page_kads Page page = []"
  by (simp add: read_page_kads_def page_end_def sizeof_page_header kads_loop_stop)

theorem read_page_kads_no_records_witness:
  "page_length (buffer_memory des_plain_buffer zeros) + 4 = sizeof page_des \<and>
   read_page_kads page_des (buffer_memory des_plain_buffer zeros) = []"
proof -
  have h: "page_length (buffer_memory des_plain_buffer zeros) + 4 = sizeof page_des"
    by (simp add: page_eval des_plain_buffer_def)
  from h read_page_kads_no_records [OF h] show ?thesis by blast
qed



text \<open>
  C1, as stated: when a record's length field would carry it past the declared
  boundary of the page, the walker stops at the boundary, does not yield the record
  and ends with a format error. In the page \<open>des_overrun_buffer\<close> the boundary is
  offset 35 and the record at offset 30 ends at offset 36; the walker yields it all
  the same and returns both records. Its result type has no error.
\<close>

theorem read_page_kads_boundary_counterexample:
  "page_end (buffer_memory des_overrun_buffer zeros) = 35 \<and>
   30 + (sizeof kad + kad_length (buffer_memory des_overrun_buffer zeros) 30) = 36 \<and>
   read_page_kads page_des (buffer_memory des_overrun_buffer zeros) = [24, 30]"
  by (simp add: page_eval des_overrun_buffer_def kads_loop.simps)

text \<open>
  C1, amended. \<^verbatim>\<open>read_page_kads\<close> checks one thing, that the cursor is before the
  declared boundary, and has no error to report. For every page, every record it
  yields starts at or after \<^verbatim>\<open>sizeof(Page)\<close> and strictly before the boundary; every
  yielded record but the last ends strictly before the boundary; and the last yielded
  record ends at or after the boundary, where the walk stops. So a record whose length
  field carries it past the boundary is yielded, as the last one.
\<close>

theorem read_page_kads_boundary:
  "(\<forall>r \<in> set (read_page_kads Page page). sizeof Page \<le> r \<and> r < page_end page) \<and>
   (\<forall>r \<in> set (butlast (read_page_kads Page page)).
      r + (sizeof kad + kad_length page r) < page_end page) \<and>
   (read_page_kads Page page \<noteq> [] \<longrightarrow>
      page_end page \<le> last (read_page_kads Page page) +
        (sizeof kad + kad_length page (last (read_page_kads Page page))))"
proof -
  have starts: "\<forall>r \<in> set (read_page_kads Page page). sizeof Page \<le> r \<and> r < page_end page"
    unfolding read_page_kads_def using kads_loop_range by blast
  have inner: "\<forall>r \<in> set (butlast (read_page_kads Page page)).
      r + (sizeof kad + kad_length page r) < page_end page"
    unfolding read_page_kads_def using kads_loop_butlast by (simp add: add.commute)
  have final: "read_page_kads Page page \<noteq> [] \<Longrightarrow>
      page_end page \<le> last (read_page_kads Page page) +
        (sizeof kad + kad_length page (last (read_page_kads Page page)))"
    unfolding read_page_kads_def using kads_loop_last by (simp add: add.commute)
  from starts inner final show ?thesis by blast
qed

theorem read_page_kads_boundary_witness:
  "30 \<in> set (read_page_kads page_des (buffer_memory des_overrun_buffer zeros)) \<and>
   30 < page_end (buffer_memory des_overrun_buffer zeros) \<and>
   24 \<in> set (butlast (read_page_kads page_des (buffer_memory des_overrun_buffer zeros))) \<and>
   24 + (sizeof kad + kad_length (buffer_memory des_overrun_buffer zeros) 24)
     < page_end (buffer_memory des_overrun_buffer zeros) \<and>
   read_page_kads page_des (buffer_memory des_overrun_buffer zeros) \<noteq> [] \<and>
   page_end (buffer_memory des_overrun_buffer zeros)
     \<le> 30 + (sizeof kad + kad_length (buffer_memory des_overrun_buffer zeros) 30)"
proof -
  have rs: "read_page_kads page_des (buffer_memory des_overrun_buffer zeros) = [24, 30]"
    by (simp add: page_eval des_overrun_buffer_def kads_loop.simps)
  from read_page_kads_boundary [of page_des "buffer_memory des_overrun_buffer zeros"]
  show ?thesis by (simp add: rs)
qed

text \<open>
  C2, as stated: the walker's authority is the smaller of the declared length and the
  actual buffer length, and when the declared length exceeds what the buffer holds it
  ends with a format error, yields nothing and reads nothing past the buffer. The
  buffer \<open>des_long_record_buffer\<close> has 32 bytes and declares 36 after its header; the
  walker returns the record at offset 24, whose length field carries it far past the
  buffer, and no error. The buffer \<open>des_short_buffer\<close> has 24 bytes and declares 28;
  the walker reads the length field at offset 26, past the end of the buffer.
\<close>

theorem read_page_kads_in_buffer_counterexample:
  "length des_long_record_buffer = 32 \<and>
   page_length (nth des_long_record_buffer) = 36 \<and>
   read_page_kads_in page_des des_long_record_buffer = Inr [24] \<and>
   length des_short_buffer = 24 \<and>
   page_length (nth des_short_buffer) = 28 \<and>
   read_page_kads_in page_des des_short_buffer = Inl (ReadOutside 26)"
  by (simp add: buffer_eval des_long_record_buffer_def des_short_buffer_def)

text \<open>
  C2, amended. \<^verbatim>\<open>read_page_kads\<close> is given the page and no buffer length: its only
  authority is the declared length, and it has no format error to report. For every
  buffer that holds the page header and \<^verbatim>\<open>sizeof(Page)\<close> bytes and whose declared
  length puts the boundary past the end of the buffer, the walker does not stay inside
  the buffer. Either it returns a sequence that is not empty, whose first record is at
  \<^verbatim>\<open>sizeof(Page)\<close> and whose last record ends past the end of the buffer; or it reads
  the length field of a record that starts before the boundary at an offset not inside
  the buffer.
\<close>

theorem read_page_kads_in_short_buffer:
  assumes "sizeof page_header \<le> length buf"
    and "sizeof Page \<le> length buf"
    and "length buf < page_end (nth buf)"
  shows "(read_page_kads_in Page buf = Inr rs \<longrightarrow>
            rs \<noteq> [] \<and> hd rs = sizeof Page \<and>
            length buf < last rs + (sizeof kad + kad_length (nth buf) (last rs))) \<and>
         (read_page_kads_in Page buf = Inl (ReadOutside a) \<longrightarrow>
            length buf \<le> a + 1 \<and> a < page_end (nth buf) + 2)"
proof -
  have returned: "rs \<noteq> [] \<and> hd rs = sizeof Page \<and>
      length buf < last rs + (sizeof kad + kad_length (nth buf) (last rs))"
    if "read_page_kads_in Page buf = Inr rs"
  proof -
    from that have rs: "rs = kads_loop (nth buf) (page_end (nth buf)) (sizeof Page) []"
      unfolding read_page_kads_def [symmetric] by (rule read_page_kads_in_Inr)
    from assms have "sizeof Page < page_end (nth buf)"
      by simp
    then have first: "rs \<noteq> [] \<and> hd rs = sizeof Page"
      by (simp add: rs kads_loop_step)
    then have "page_end (nth buf) \<le> last rs + (kad_length (nth buf) (last rs) + sizeof kad)"
      unfolding rs using kads_loop_last by blast
    with assms(3) have "length buf < last rs + (sizeof kad + kad_length (nth buf) (last rs))"
      by simp
    with first show ?thesis by blast
  qed
  have outside: "length buf \<le> a + 1 \<and> a < page_end (nth buf) + 2"
    if "read_page_kads_in Page buf = Inl (ReadOutside a)"
    using that by (rule read_page_kads_in_Inl)
  from returned outside show ?thesis by blast
qed

theorem read_page_kads_in_short_buffer_witness:
  "sizeof page_header \<le> length des_long_record_buffer \<and>
   sizeof page_des \<le> length des_long_record_buffer \<and>
   length des_long_record_buffer < page_end (nth des_long_record_buffer) \<and>
   read_page_kads_in page_des des_long_record_buffer = Inr [24] \<and>
   length des_long_record_buffer < 24 + (sizeof kad + kad_length (nth des_long_record_buffer) 24) \<and>
   sizeof page_header \<le> length des_short_buffer \<and>
   sizeof page_des \<le> length des_short_buffer \<and>
   length des_short_buffer < page_end (nth des_short_buffer) \<and>
   read_page_kads_in page_des des_short_buffer = Inl (ReadOutside 26) \<and>
   length des_short_buffer \<le> 26 + 1"
proof -
  have l1: "sizeof page_header \<le> length des_long_record_buffer"
    and l2: "sizeof page_des \<le> length des_long_record_buffer"
    and l3: "length des_long_record_buffer < page_end (nth des_long_record_buffer)"
    and l4: "read_page_kads_in page_des des_long_record_buffer = Inr [24]"
    by (simp_all add: buffer_eval des_long_record_buffer_def)
  have s1: "sizeof page_header \<le> length des_short_buffer"
    and s2: "sizeof page_des \<le> length des_short_buffer"
    and s3: "length des_short_buffer < page_end (nth des_short_buffer)"
    and s4: "read_page_kads_in page_des des_short_buffer = Inl (ReadOutside 26)"
    by (simp_all add: buffer_eval des_short_buffer_def)
  from read_page_kads_in_short_buffer [OF l1 l2 l3, of "[24]" 0]
    read_page_kads_in_short_buffer [OF s1 s2 s3, of "[]" 26]
    l1 l2 l3 l4 s1 s2 s3 s4
  show ?thesis by simp
qed

subsection \<open>Building and decoding the set data encryption page\<close>




end
